theory Spec2Isabelle
  imports Main "HOL-Library.AList" "HOL-Library.Char_ord" "HOL-Library.List_Lexorder"
begin

section \<open>Python strings\<close>

text \<open>
  A Python \<open>str\<close> is a sequence of code points. The model is \<open>string\<close>: a \<open>char\<close> stands
  for the code point of the same number, so the model covers the code points below 256.
  The character classes below are the ones the interpreter uses on that range:
  \<open>str.isspace\<close> (which \<open>strip()\<close> and \<open>split()\<close> follow), \<open>str.isdigit\<close>, and the decimal
  digits and blanks that \<open>int()\<close> accepts. Conversions between integers and text are of
  unbounded length.
\<close>

definition LF :: char where
  "LF = CHR 0x0A"

definition CR :: char where
  "CR = CHR 0x0D"

definition isspace :: "char \<Rightarrow> bool" where
  "isspace c =
     (let n = (of_char c :: nat)
      in (9 \<le> n \<and> n \<le> 13) \<or> (28 \<le> n \<and> n \<le> 32) \<or> n = 133 \<or> n = 160)"

definition isdecimal :: "char \<Rightarrow> bool" where
  "isdecimal c = (let n = (of_char c :: nat) in 48 \<le> n \<and> n \<le> 57)"

definition isdigit_char :: "char \<Rightarrow> bool" where
  "isdigit_char c =
     (let n = (of_char c :: nat) in (48 \<le> n \<and> n \<le> 57) \<or> n = 178 \<or> n = 179 \<or> n = 185)"

definition isdigit :: "string \<Rightarrow> bool" where
  "isdigit s = (s \<noteq> [] \<and> list_all isdigit_char s)"

definition strip_with :: "(char \<Rightarrow> bool) \<Rightarrow> string \<Rightarrow> string" where
  "strip_with p s = dropWhile p (rev (dropWhile p (rev s)))"

definition rstrip_with :: "(char \<Rightarrow> bool) \<Rightarrow> string \<Rightarrow> string" where
  "rstrip_with p s = rev (dropWhile p (rev s))"

definition strip :: "string \<Rightarrow> string" where
  "strip s = strip_with isspace s"

definition startswith :: "string \<Rightarrow> string \<Rightarrow> bool" where
  "startswith s p = (take (length p) s = p)"

definition endswith :: "string \<Rightarrow> string \<Rightarrow> bool" where
  "endswith s p = startswith (rev s) (rev p)"

text \<open>\<open>s.split(sep, 1)\<close> for a separator that occurs in \<open>s\<close>: the text before and after its
  first occurrence.\<close>

definition split_once :: "char \<Rightarrow> string \<Rightarrow> string \<times> string" where
  "split_once sep s = (takeWhile (\<lambda>c. c \<noteq> sep) s, drop 1 (dropWhile (\<lambda>c. c \<noteq> sep) s))"

text \<open>\<open>s.split(sep)\<close>: every field, empty ones included.\<close>

fun split_acc :: "char \<Rightarrow> string \<Rightarrow> string \<Rightarrow> string list" where
  "split_acc sep cur [] = [cur]"
| "split_acc sep cur (c # s) =
     (if c = sep then cur # split_acc sep [] s else split_acc sep (cur @ [c]) s)"

definition split_sep :: "char \<Rightarrow> string \<Rightarrow> string list" where
  "split_sep sep s = split_acc sep [] s"

text \<open>\<open>s.split()\<close>: the maximal runs of characters that are not blanks.\<close>

fun split_ws_acc :: "string \<Rightarrow> string \<Rightarrow> string list" where
  "split_ws_acc cur [] = (if cur = [] then [] else [cur])"
| "split_ws_acc cur (c # s) =
     (if isspace c then (if cur = [] then [] else [cur]) @ split_ws_acc [] s
      else split_ws_acc (cur @ [c]) s)"

definition split_ws :: "string \<Rightarrow> string list" where
  "split_ws s = split_ws_acc [] s"

text \<open>Decimal rendering: \<open>str(n)\<close> of an integer.\<close>

definition digit_of :: "nat \<Rightarrow> char" where
  "digit_of d = ''0123456789'' ! d"

fun str_nat :: "nat \<Rightarrow> string" where
  "str_nat n = (if n < 10 then [digit_of n] else str_nat (n div 10) @ [digit_of (n mod 10)])"

declare str_nat.simps [simp del]

definition str_int :: "int \<Rightarrow> string" where
  "str_int i = (if i < 0 then CHR ''-'' # str_nat (nat (- i)) else str_nat (nat i))"

text \<open>
  \<open>int(s)\<close>, base ten: blanks around the literal are dropped (the blanks \<open>int\<close> knows, which
  leave out the code points 28 to 31), then an optional sign, then decimal digits with
  single underscores allowed between digits. \<open>None\<close> stands for \<open>ValueError\<close>.
\<close>

definition int_blank :: "char \<Rightarrow> bool" where
  "int_blank c =
     (let n = (of_char c :: nat) in (9 \<le> n \<and> n \<le> 13) \<or> n = 32 \<or> n = 133 \<or> n = 160)"

fun int_literal :: "string \<Rightarrow> bool" where
  "int_literal [] = False"
| "int_literal [c] = isdecimal c"
| "int_literal (c # d # r) =
     (isdecimal c \<and> (if d = CHR ''_'' then int_literal r else int_literal (d # r)))"

definition digits_value :: "string \<Rightarrow> nat" where
  "digits_value s = foldl (\<lambda>acc c. 10 * acc + (of_char c - 48)) 0 s"

definition int_unsigned :: "string \<Rightarrow> int option" where
  "int_unsigned s =
     (if int_literal s then Some (int (digits_value (filter (\<lambda>c. c \<noteq> CHR ''_'') s))) else None)"

definition py_int :: "string \<Rightarrow> int option" where
  "py_int s =
     (case strip_with int_blank s of
        [] \<Rightarrow> None
      | c # r \<Rightarrow>
          if c = CHR ''-'' then map_option uminus (int_unsigned r)
          else if c = CHR ''+'' then int_unsigned r
          else int_unsigned (c # r))"

text \<open>
  A text file opened for reading translates \<open>\r\n\<close> and a lone \<open>\r\<close> to \<open>\n\<close>; iterating over
  the handle yields the lines, each with its \<open>\n\<close> (the last line may lack one).
\<close>

fun universal_newlines :: "string \<Rightarrow> string" where
  "universal_newlines [] = []"
| "universal_newlines [c] = [if c = CR then LF else c]"
| "universal_newlines (c # d # r) =
     (if c = CR \<and> d = LF then LF # universal_newlines r
      else if c = CR then LF # universal_newlines (d # r)
      else c # universal_newlines (d # r))"

fun lines_acc :: "string \<Rightarrow> string \<Rightarrow> string list" where
  "lines_acc cur [] = (if cur = [] then [] else [cur])"
| "lines_acc cur (c # s) =
     (if c = LF then (cur @ [LF]) # lines_acc [] s else lines_acc (cur @ [c]) s)"

definition readlines :: "string \<Rightarrow> string list" where
  "readlines raw = lines_acc [] (universal_newlines raw)"

section \<open>Dictionaries\<close>

text \<open>
  A \<open>dict\<close> keeps its keys in insertion order, and an assignment to a key it holds keeps
  the key's place: an association list with distinct keys, assigned with \<open>AList.update\<close>.
  \<open>d.get(k)\<close> on a dictionary of optional values gives \<open>None\<close> for a missing key and for
  a key bound to \<open>None\<close> alike.
\<close>

type_synonym 'v dict = "(string \<times> 'v) list"

definition keys :: "'v dict \<Rightarrow> string list" where
  "keys d = map fst d"

definition dict_get :: "'v option dict \<Rightarrow> string \<Rightarrow> 'v option" where
  "dict_get d k = (case map_of d k of None \<Rightarrow> None | Some v \<Rightarrow> v)"

section \<open>Subuid resolver: \<open>container_host_uid_map.py\<close>\<close>

text \<open>
  \<open>compute_host_uids\<close> reads the process's user id through \<open>os.getuid()\<close>; the model takes
  it as the parameter \<open>getuid\<close>.
\<close>

definition host_uid :: "nat \<Rightarrow> int \<Rightarrow> int option \<Rightarrow> int option" where
  "host_uid getuid subuid_base container_uid =
     (case container_uid of
        None \<Rightarrow> None
      | Some u \<Rightarrow>
          if getuid \<noteq> 0 then Some (subuid_base + u - 1) else Some (subuid_base + u))"

definition compute_host_uids :: "nat \<Rightarrow> int option dict \<Rightarrow> int \<Rightarrow> int option dict" where
  "compute_host_uids getuid mapping subuid_base =
     fold (\<lambda>(name, container_uid) host_map.
             AList.update name (host_uid getuid subuid_base container_uid) host_map)
       mapping []"

section \<open>Definition scanner: alias propagation in \<open>container_uid_map.py\<close>\<close>

definition alias_pairs :: "(string \<times> string) list" where
  "alias_pairs =
     [(''database'', ''db''), (''secret/cert'', ''nginx''), (''secret/core'', ''core'')]"

definition add_alias :: "string \<times> string \<Rightarrow> string option dict \<Rightarrow> string option dict" where
  "add_alias p mapping =
     (case p of (alias, target) \<Rightarrow>
        if alias \<notin> set (keys mapping) then AList.update alias (dict_get mapping target) mapping
        else mapping)"

definition add_aliases :: "(string \<times> string) list \<Rightarrow> string option dict \<Rightarrow> string option dict" where
  "add_aliases pairs mapping = fold add_alias pairs mapping"

section \<open>Errors\<close>

text \<open>
  A raised exception ends the run; the model returns it as a value. \<open>SystemExit\<close> carries
  the message the script exits with; the other exceptions are not caught by the scripts
  and end them with a traceback.
\<close>

datatype py_error =
    SystemExit string
  | ValueError string
  | KeyError string
  | Uncaught string

section \<open>Subuid resolver: the registry lookup in \<open>container_host_uid_map.py\<close>\<close>

text \<open>
  \<open>get_current_user_subuid\<close> asks the password database for the login name of
  \<open>os.getuid()\<close> (\<open>pw_name\<close> is \<open>None\<close> when the database has no entry: \<open>KeyError\<close>), then
  reads the registry file (\<open>file\<close> is \<open>None\<close> when the path is not a file).
\<close>

fun subuid_scan :: "string \<Rightarrow> string list \<Rightarrow> py_error + int" where
  "subuid_scan username [] =
     Inl (SystemExit (''No subuid entry found for user '' @ username))"
| "subuid_scan username (raw_line # rest) =
     (let line = strip raw_line in
      if line = [] \<or> startswith line ''#'' then subuid_scan username rest
      else
        let parts = split_sep (CHR '':'') line in
        if length parts < 3 then subuid_scan username rest
        else if parts ! 0 = username then
          (case py_int (parts ! 1) of
             Some n \<Rightarrow> Inr n
           | None \<Rightarrow>
               Inl (SystemExit (''Invalid subuid base for '' @ username @ '': '' @ parts ! 1)))
        else subuid_scan username rest)"

definition get_current_user_subuid ::
  "nat \<Rightarrow> string option \<Rightarrow> string option \<Rightarrow> string \<Rightarrow> py_error + int" where
  "get_current_user_subuid getuid pw_name file subuid_file =
     (case pw_name of
        None \<Rightarrow> Inl (KeyError (''getpwuid(): uid not found: '' @ str_nat getuid))
      | Some username \<Rightarrow>
          (case file of
             None \<Rightarrow> Inl (SystemExit (''subuid file not found: '' @ subuid_file))
           | Some raw \<Rightarrow> subuid_scan username (readlines raw)))"

text \<open>
  The registry record the resolver looks for, in the words of the specification: a line
  that is neither blank nor a comment, has at least three colon-delimited fields, and
  whose first field is the user's name.
\<close>

definition subuid_record :: "string \<Rightarrow> string \<Rightarrow> bool" where
  "subuid_record username raw_line =
     (let line = strip raw_line; parts = split_sep (CHR '':'') line
      in line \<noteq> [] \<and> \<not> startswith line ''#'' \<and> 3 \<le> length parts \<and> parts ! 0 = username)"

definition subuid_base_of :: "string \<Rightarrow> string \<Rightarrow> py_error + int" where
  "subuid_base_of username raw_line =
     (let field = split_sep (CHR '':'') (strip raw_line) ! 1 in
      case py_int field of
        Some n \<Rightarrow> Inr n
      | None \<Rightarrow> Inl (SystemExit (''Invalid subuid base for '' @ username @ '': '' @ field)))"

section \<open>Definition scanner: reading a build definition in \<open>container_uid_map.py\<close>\<close>

text \<open>
  \<open>read_effective_lines\<close> is a generator over the lines of the file; \<open>pending\<close> is its
  state. The model returns the list of the lines it yields, in order.
\<close>

definition backslash :: char where
  "backslash = CHR 0x5C"

fun effective_lines :: "string \<Rightarrow> string list \<Rightarrow> string list" where
  "effective_lines pending [] = (if pending \<noteq> [] then [strip pending] else [])"
| "effective_lines pending (raw_line # rest) =
     (let stripped_newline = rstrip_with (\<lambda>c. c = LF) raw_line;
          stripped = strip stripped_newline
      in
        if stripped = [] then
          (if pending \<noteq> [] then strip pending # effective_lines [] rest
           else effective_lines pending rest)
        else if startswith stripped ''#'' then effective_lines pending rest
        else if endswith stripped_newline [backslash] then
          effective_lines (pending @ butlast stripped_newline @ '' '') rest
        else
          (let pending = pending @ stripped_newline
           in if pending \<noteq> [] then strip pending # effective_lines [] rest
              else effective_lines pending rest))"

definition read_effective_lines :: "string \<Rightarrow> string list" where
  "read_effective_lines raw = effective_lines [] (readlines raw)"

text \<open>
  \<open>extract_uid_from_tokens\<close> walks the token list by index and looks one token ahead;
  the model recurses on the tokens that remain, whose head is the current token.
\<close>

fun extract_uid_from_tokens :: "string list \<Rightarrow> string option" where
  "extract_uid_from_tokens [] = None"
| "extract_uid_from_tokens (token # rest) =
     (if token = ''-u'' \<or> token = ''--uid'' then
        (case rest of
           [] \<Rightarrow> extract_uid_from_tokens rest
         | val # _ \<Rightarrow> if isdigit val then Some val else extract_uid_from_tokens rest)
      else
        (let short =
           (if startswith token ''-u'' \<and> token \<noteq> ''-u'' then
              (let candidate = drop 2 token;
                   candidate = (if startswith candidate ''='' then drop 1 candidate
                                else candidate)
               in if isdigit candidate then Some candidate else None)
            else None)
         in case short of
              Some candidate \<Rightarrow> Some candidate
            | None \<Rightarrow>
                if startswith token ''--uid='' then
                  (let candidate = snd (split_once (CHR ''='') token)
                   in if isdigit candidate then Some candidate
                      else extract_uid_from_tokens rest)
                else extract_uid_from_tokens rest))"

text \<open>
  \<open>shlex.split(line, comments=True)\<close> belongs to the interpreter's library; the model takes
  it as the parameter \<open>shlex_split\<close>, \<open>None\<close> standing for the \<open>ValueError\<close> it raises on
  unbalanced quoting.
\<close>

definition tokens_of :: "(string \<Rightarrow> string list option) \<Rightarrow> string \<Rightarrow> string list" where
  "tokens_of shlex_split line =
     (case shlex_split line of Some tokens \<Rightarrow> tokens | None \<Rightarrow> split_ws line)"

fun find_uid_in_lines :: "(string \<Rightarrow> string list option) \<Rightarrow> string list \<Rightarrow> string option" where
  "find_uid_in_lines shlex_split [] = None"
| "find_uid_in_lines shlex_split (line # rest) =
     (case extract_uid_from_tokens (tokens_of shlex_split line) of
        Some uid \<Rightarrow> Some uid
      | None \<Rightarrow> find_uid_in_lines shlex_split rest)"

definition find_uid_in_file :: "(string \<Rightarrow> string list option) \<Rightarrow> string \<Rightarrow> string option" where
  "find_uid_in_file shlex_split raw = find_uid_in_lines shlex_split (read_effective_lines raw)"

text \<open>
  The specification's reading of the scan. A token marks a value when it is a standalone
  \<open>-u\<close> or \<open>--uid\<close> and the value is the next token, when it is \<open>-u\<close> fused with the value
  (directly or through \<open>=\<close>), or when it is \<open>--uid=\<close> followed by the value; the value
  counts when it is purely numeric. The scan returns the first value marked, left to right.
\<close>

definition marked_value :: "string \<Rightarrow> string list \<Rightarrow> string option" where
  "marked_value token following =
     (if token = ''-u'' \<or> token = ''--uid'' then
        (case following of
           [] \<Rightarrow> None
         | val # _ \<Rightarrow> if isdigit val then Some val else None)
      else if startswith token ''-u='' \<and> isdigit (drop 3 token) then Some (drop 3 token)
      else if startswith token ''-u'' \<and> isdigit (drop 2 token) then Some (drop 2 token)
      else if startswith token ''--uid='' \<and> isdigit (drop 6 token) then Some (drop 6 token)
      else None)"

fun first_marked :: "string list \<Rightarrow> string option" where
  "first_marked [] = None"
| "first_marked (token # rest) =
     (case marked_value token rest of Some val \<Rightarrow> Some val | None \<Rightarrow> first_marked rest)"

text \<open>The three kinds of physical line the reader tells apart, and a continued line.\<close>

definition blank_line :: "string \<Rightarrow> bool" where
  "blank_line raw_line = (strip (rstrip_with (\<lambda>c. c = LF) raw_line) = [])"

definition comment_line :: "string \<Rightarrow> bool" where
  "comment_line raw_line = startswith (strip (rstrip_with (\<lambda>c. c = LF) raw_line)) ''#''"

definition continued_line :: "string \<Rightarrow> bool" where
  "continued_line raw_line = endswith (rstrip_with (\<lambda>c. c = LF) raw_line) [backslash]"

section \<open>Mapping store: \<open>write_yaml\<close>, \<open>load_yaml_simple\<close> and \<open>load_container_map\<close>\<close>

text \<open>
  \<open>write_yaml\<close> writes one text to the destination; the model returns that text (on the
  platforms the scripts run on, a written \<open>\n\<close> is stored as it is).
  \<open>sorted(mapping.items())\<close> orders the pairs of name and value; the names of a
  dictionary are distinct, so the order is the ascending order of the names, compared
  code point by code point.
\<close>

definition render_line :: "string \<times> int option \<Rightarrow> string" where
  "render_line entry =
     (case entry of (name, uid) \<Rightarrow>
        name @ '': '' @ (case uid of None \<Rightarrow> ''null'' | Some u \<Rightarrow> str_int u))"

fun join_lines :: "string list \<Rightarrow> string" where
  "join_lines [] = []"
| "join_lines [l] = l"
| "join_lines (l # m # ls) = l @ [LF] @ join_lines (m # ls)"

definition write_yaml :: "int option dict \<Rightarrow> string" where
  "write_yaml mapping =
     (let lines = map render_line (sort_key fst mapping);
          lines = (if lines = [] then [''{}''] else lines)
      in join_lines lines @ [LF])"

definition dquote :: char where
  "dquote = CHR 0x22"

definition squote :: string where
  "squote = [CHR 0x27]"

fun simple_lines :: "string list \<Rightarrow> int option dict \<Rightarrow> py_error + int option dict" where
  "simple_lines [] mapping = Inr mapping"
| "simple_lines (raw_line # rest) mapping =
     (let line = strip raw_line in
      if line = [] \<or> startswith line ''#'' then simple_lines rest mapping
      else if line = ''{}'' \<or> line = ''[]'' then Inr []
      else if CHR '':'' \<notin> set line then simple_lines rest mapping
      else
        (let name = fst (split_once (CHR '':'') line);
             val_text = snd (split_once (CHR '':'') line);
             key = strip name;
             val = strip_with (\<lambda>c. c = dquote) (strip val_text)
         in
           if val = [] \<or> val = ''null'' \<or> val = ''~'' then
             simple_lines rest (AList.update key None mapping)
           else if isdigit val then
             (case py_int val of
                Some n \<Rightarrow> simple_lines rest (AList.update key (Some n) mapping)
              | None \<Rightarrow>
                  Inl (ValueError
                    (''invalid literal for int() with base 10: '' @ squote @ val @ squote)))
           else
             Inl (ValueError
               (''Unsupported value '' @ squote @ val @ squote
                @ '' for container '' @ squote @ key @ squote))))"

definition load_yaml_simple :: "string \<Rightarrow> py_error + int option dict" where
  "load_yaml_simple raw = simple_lines (readlines raw) []"




text \<open>
  The structured parser is the optional \<open>yaml\<close> module: \<open>None\<close> when the import failed,
  otherwise its \<open>safe_load\<close>, a parameter of the model. What \<open>safe_load\<close> returns is a
  Python object: the model tells apart a dictionary, with its items in order, from any
  other object, of which only the truth value matters. Keys and values are \<open>None\<close>,
  booleans, integers, strings, or any other object, given by its \<open>str()\<close>. A boolean is an
  instance of \<open>int\<close> and equal to 1 or 0: it is stored as that integer.
\<close>

datatype pyobj =
    PyNone
  | PyBool bool
  | PyInt int
  | PyStr string
  | PyOther string

datatype yaml_doc =
    Dict "(pyobj \<times> pyobj) list"
  | NotDict bool

fun str_obj :: "pyobj \<Rightarrow> string" where
  "str_obj PyNone = ''None''"
| "str_obj (PyBool b) = (if b then ''True'' else ''False'')"
| "str_obj (PyInt i) = str_int i"
| "str_obj (PyStr s) = s"
| "str_obj (PyOther s) = s"

fun coerce_items :: "(pyobj \<times> pyobj) list \<Rightarrow> int option dict \<Rightarrow> py_error + int option dict" where
  "coerce_items [] result = Inr result"
| "coerce_items ((key, val) # rest) result =
     (case val of
        PyNone \<Rightarrow> coerce_items rest (AList.update (str_obj key) None result)
      | PyBool b \<Rightarrow>
          coerce_items rest (AList.update (str_obj key) (Some (if b then 1 else 0)) result)
      | PyInt i \<Rightarrow> coerce_items rest (AList.update (str_obj key) (Some i) result)
      | PyStr s \<Rightarrow>
          if isdigit s then
            (case py_int s of
               Some n \<Rightarrow> coerce_items rest (AList.update (str_obj key) (Some n) result)
             | None \<Rightarrow>
                 Inl (ValueError
                   (''invalid literal for int() with base 10: '' @ squote @ s @ squote)))
          else
            Inl (SystemExit
              (''Unsupported UID value for container '' @ squote @ str_obj key @ squote
               @ '': '' @ s))
      | PyOther s \<Rightarrow>
          Inl (SystemExit
            (''Unsupported UID value for container '' @ squote @ str_obj key @ squote
             @ '': '' @ s)))"

definition load_container_map ::
  "(string \<Rightarrow> py_error + yaml_doc) option \<Rightarrow> string option \<Rightarrow> string
   \<Rightarrow> py_error + int option dict" where
  "load_container_map yaml file map_path =
     (case file of
        None \<Rightarrow> Inl (SystemExit (''UID map file not found: '' @ map_path))
      | Some raw \<Rightarrow>
          (let content = universal_newlines raw in
           if strip content = [] then Inr []
           else
             (case yaml of
                Some safe_load \<Rightarrow>
                  (case safe_load content of
                     Inl e \<Rightarrow> Inl e
                   | Inr data \<Rightarrow>
                       (case data of
                          NotDict truthy \<Rightarrow>
                            if truthy then
                              Inl (SystemExit ''Container UID map must be a YAML mapping'')
                            else Inr []
                        | Dict items \<Rightarrow> coerce_items items []))
              | None \<Rightarrow> load_yaml_simple raw)))"

text \<open>
  The names the line-oriented format can carry: no colon and no line break inside, no
  blank at either end, and no leading \<open>#\<close>.
\<close>

definition plain_name :: "string \<Rightarrow> bool" where
  "plain_name name =
     (CHR '':'' \<notin> set name \<and> LF \<notin> set name \<and> CR \<notin> set name
      \<and> strip name = name \<and> \<not> startswith name ''#'')"

definition plain_entry :: "string \<times> int option \<Rightarrow> bool" where
  "plain_entry entry =
     (case entry of (name, uid) \<Rightarrow>
        plain_name name \<and> (case uid of None \<Rightarrow> True | Some u \<Rightarrow> 0 \<le> u))"

text \<open>
  What a structured parser gives for a written mapping when it reads the text as the
  YAML document it is: a dictionary, in the order written, whose keys print as the
  names and whose values are the integers, or \<open>None\<close> for \<open>null\<close>.
\<close>

definition obj_of :: "int option \<Rightarrow> pyobj" where
  "obj_of uid = (case uid of None \<Rightarrow> PyNone | Some u \<Rightarrow> PyInt u)"

definition denotes :: "yaml_doc \<Rightarrow> int option dict \<Rightarrow> bool" where
  "denotes data mapping =
     (case data of
        Dict items \<Rightarrow>
          map (\<lambda>(key, val). (str_obj key, val)) items
            = map (\<lambda>(name, uid). (name, obj_of uid)) (sort_key fst mapping)
      | NotDict truthy \<Rightarrow> False)"

section \<open>ACL applicator: \<open>apply_container_host_uids.py\<close>\<close>

text \<open>
  The applicator's surroundings are parameters of the model: \<open>isdir\<close> answers
  \<open>os.path.isdir\<close>; \<open>run_command\<close> is \<open>subprocess.run\<close>, given the commands run so far and
  the command, and tells whether the program was found and, if so, its exit code and
  error text; \<open>shlex_join\<close> is the library's \<open>shlex.join\<close>. The state of a run is the tally,
  the lines printed and the commands handed to \<open>subprocess.run\<close>. A run that ends in an
  exception keeps the state it had reached.
\<close>

datatype proc_result =
    NotFound
  | Exited int string

record env =
  isdir :: "string \<Rightarrow> bool"
  run_command :: "string list list \<Rightarrow> string list \<Rightarrow> proc_result"
  shlex_join :: "string list \<Rightarrow> string"

record run_state =
  processed :: nat
  printed :: "string list"
  calls :: "string list list"

datatype outcome =
    Completed run_state
  | Aborted py_error run_state

definition path_join :: "string \<Rightarrow> string \<Rightarrow> string" where
  "path_join a b =
     (if startswith b ''/'' then b
      else if a = [] \<or> endswith a ''/'' then a @ b
      else a @ ''/'' @ b)"

definition setfacl_command :: "string \<Rightarrow> int \<Rightarrow> string list" where
  "setfacl_command root uid =
     [''setfacl'', ''-R'', ''-m'', ''u:'' @ str_int uid @ '':rwx'',
      ''-m'', ''g:'' @ str_int uid @ '':rwx'', root]"

definition setfacl_failure :: "string \<Rightarrow> int \<Rightarrow> string \<Rightarrow> py_error" where
  "setfacl_failure root returncode stderr =
     SystemExit (''setfacl failed for '' @ root @ '': ''
       @ (if strip stderr \<noteq> [] then strip stderr else ''exit code '' @ str_int returncode))"

definition apply_setfacl :: "env \<Rightarrow> string \<Rightarrow> int \<Rightarrow> bool \<Rightarrow> run_state \<Rightarrow> outcome" where
  "apply_setfacl e root uid dry_run st =
     (let command = setfacl_command root uid in
      if dry_run then
        Completed (st\<lparr>printed := printed st @ [''DRY-RUN '' @ shlex_join e command]\<rparr>)
      else
        (let st' = st\<lparr>calls := calls st @ [command]\<rparr> in
         case run_command e (calls st) command of
           NotFound \<Rightarrow> Aborted (SystemExit ''setfacl command not found'') st'
         | Exited returncode stderr \<Rightarrow>
             if returncode \<noteq> 0 then Aborted (setfacl_failure root returncode stderr) st'
             else Completed st'))"

fun apply_entries ::
  "env \<Rightarrow> string \<Rightarrow> bool \<Rightarrow> (string \<times> int option) list \<Rightarrow> run_state \<Rightarrow> outcome" where
  "apply_entries e root dry_run [] st = Completed st"
| "apply_entries e root dry_run ((name, uid) # rest) st =
     (case uid of
        None \<Rightarrow>
          apply_entries e root dry_run rest
            (st\<lparr>printed := printed st @ [''Skipping '' @ name @ '': no host UID defined'']\<rparr>)
      | Some u \<Rightarrow>
          (let target = path_join root name in
           if \<not> isdir e target then
             apply_entries e root dry_run rest
               (st\<lparr>printed := printed st
                  @ [''Skipping '' @ name @ '': directory not found at '' @ target]\<rparr>)
           else
             (case apply_setfacl e target u dry_run st of
                Aborted err st' \<Rightarrow> Aborted err st'
              | Completed st' \<Rightarrow>
                  apply_entries e root dry_run rest
                    (st'\<lparr>processed := processed st' + 1\<rparr>))))"

text \<open>
  \<open>main\<close>, from the check of the root directory on; \<open>loaded\<close> is what \<open>load_host_map\<close>
  returned or raised.
\<close>

definition initial_state :: run_state where
  "initial_state = \<lparr>processed = 0, printed = [], calls = []\<rparr>"

definition apply_main ::
  "env \<Rightarrow> string \<Rightarrow> bool \<Rightarrow> py_error + int option dict \<Rightarrow> outcome" where
  "apply_main e root dry_run loaded =
     (if \<not> isdir e root then Aborted (SystemExit (''Directory not found: '' @ root)) initial_state
      else
        (case loaded of
           Inl err \<Rightarrow> Aborted err initial_state
         | Inr host_map \<Rightarrow>
             (case apply_entries e root dry_run (sort_key fst host_map) initial_state of
                Aborted err st \<Rightarrow> Aborted err st
              | Completed st \<Rightarrow>
                  Completed (st\<lparr>printed := printed st
                    @ [''Processed '' @ str_nat (processed st)
                       @ '' container directories with setfacl'']\<rparr>))))"

text \<open>The entries of a mapping that the applicator grants: a UID and a directory.\<close>

definition granted :: "env \<Rightarrow> string \<Rightarrow> string \<times> int option \<Rightarrow> bool" where
  "granted e root entry =
     (case entry of (name, uid) \<Rightarrow> uid \<noteq> None \<and> isdir e (path_join root name))"

definition grant_fails :: "env \<Rightarrow> run_state \<Rightarrow> string list \<Rightarrow> bool" where
  "grant_fails e st command =
     (case run_command e (calls st) command of
        NotFound \<Rightarrow> True
      | Exited returncode stderr \<Rightarrow> returncode \<noteq> 0)"

section \<open>Example surroundings\<close>

text \<open>
  Surroundings for the worked examples: the directories that exist, a grant tool that
  always exits with the same code and no error text, and a rendering of a command for
  arguments that need no quoting.
\<close>

definition only_dirs :: "string list \<Rightarrow> string \<Rightarrow> bool" where
  "only_dirs dirs path = (path \<in> set dirs)"

definition always_exit :: "int \<Rightarrow> string \<Rightarrow> string list list \<Rightarrow> string list \<Rightarrow> proc_result" where
  "always_exit returncode stderr history command = Exited returncode stderr"

definition join_spaces :: "string list \<Rightarrow> string" where
  "join_spaces command = concat (map (\<lambda>word. word @ '' '') command)"

definition example_env :: "string list \<Rightarrow> int \<Rightarrow> env" where
  "example_env dirs returncode =
     \<lparr>isdir = only_dirs dirs, run_command = always_exit returncode [], shlex_join = join_spaces\<rparr>"

text \<open>
  What \<open>shlex.split\<close> gives for a line with no quote, escape or comment character: its
  whitespace-separated words.
\<close>

definition shlex_unquoted :: "string \<Rightarrow> string list option" where
  "shlex_unquoted line = Some (split_ws line)"

text \<open>A structured parser that gives one fixed object, for the worked examples.\<close>

definition parser_giving :: "yaml_doc \<Rightarrow> string \<Rightarrow> py_error + yaml_doc" where
  "parser_giving data content = Inr data"

section \<open>Evaluation of the string functions\<close>

lemmas str_defs = strip_def strip_with_def isspace_def startswith_def split_sep_def

section \<open>Properties of the resolver\<close>

lemma fold_update_map:
  "distinct (map fst xs) \<Longrightarrow> set (map fst xs) \<inter> set (map fst acc) = {} \<Longrightarrow>
   fold (\<lambda>(k, v) m. AList.update k (f v) m) xs acc = acc @ map (\<lambda>(k, v). (k, f v)) xs"
proof (induction xs arbitrary: acc)
  case Nil
  then show ?case by simp
next
  case (Cons x xs)
  obtain k v where x: "x = (k, v)" by (cases x)
  from Cons.prems x have fresh: "k \<notin> fst ` set acc" by auto
  then have upd: "AList.update k (f v) acc = acc @ [(k, f v)]"
    by (induction acc) auto
  from Cons.prems x have "distinct (map fst xs)"
    and "set (map fst xs) \<inter> set (map fst (acc @ [(k, f v)])) = {}"
    by auto
  from Cons.IH [OF this] show ?case
    by (simp add: x upd)
qed

lemma compute_host_uids_map:
  "distinct (map fst mapping) \<Longrightarrow>
   compute_host_uids getuid mapping b = map (\<lambda>(name, u). (name, host_uid getuid b u)) mapping"
  unfolding compute_host_uids_def
  using fold_update_map [of mapping "[]" "host_uid getuid b"] by simp

text \<open>
  C1. For every entry of the input dictionary and every subuid base \<open>b\<close>: a container
  whose UID is absent gets an absent host UID (the key is kept, bound to \<open>None\<close>, not to
  zero); a container with UID \<open>u\<close> gets \<open>b + u\<close> when the process runs as user 0 and
  \<open>b + u - 1\<close> otherwise. The output holds exactly the input's names.
\<close>

theorem compute_host_uids_entry:
  assumes "distinct (keys mapping)" and "(name, container_uid) \<in> set mapping"
  shows "map_of (compute_host_uids getuid mapping b) name =
           Some (case container_uid of
                   None \<Rightarrow> None
                 | Some u \<Rightarrow> Some (if getuid = 0 then b + u else b + u - 1))
         \<and> keys (compute_host_uids getuid mapping b) = keys mapping"
proof -
  from assms(1) have d: "distinct (map fst mapping)"
    by (simp add: keys_def)
  have eq: "compute_host_uids getuid mapping b =
              map (\<lambda>(name, u). (name, host_uid getuid b u)) mapping"
    by (rule compute_host_uids_map [OF d])
  have k: "keys (compute_host_uids getuid mapping b) = keys mapping"
    by (simp add: eq keys_def case_prod_unfold comp_def)
  from d assms(2) have "map_of mapping name = Some container_uid"
    by simp
  then have "map_of (compute_host_uids getuid mapping b) name =
               Some (host_uid getuid b container_uid)"
    by (simp add: eq map_of_map)
  then show ?thesis
    using k by (simp add: host_uid_def split: option.splits)
qed

theorem compute_host_uids_entry_witness:
  "map_of (compute_host_uids 1000 [(''app'', Some 1000), (''db'', None)] 100000) ''app''
     = Some (Some 100999)
   \<and> map_of (compute_host_uids 0 [(''app'', Some 1000), (''db'', None)] 100000) ''app''
     = Some (Some 101000)
   \<and> map_of (compute_host_uids 1000 [(''app'', Some 1000), (''db'', None)] 100000) ''db''
     = Some None"
  using compute_host_uids_entry [of "[(''app'', Some 1000), (''db'', None)]" "''app''" "Some 1000" 1000 100000]
    compute_host_uids_entry [of "[(''app'', Some 1000), (''db'', None)]" "''app''" "Some 1000" 0 100000]
    compute_host_uids_entry [of "[(''app'', Some 1000), (''db'', None)]" "''db''" None 1000 100000]
  by (simp add: keys_def)

section \<open>Properties of alias propagation\<close>

lemma map_of_add_alias:
  "map_of (add_alias (alias, target) m) =
     (if alias \<in> set (keys m) then map_of m else (map_of m)(alias \<mapsto> dict_get m target))"
  by (simp add: add_alias_def update_conv')

lemma keys_add_alias:
  "set (keys (add_alias (alias, target) m)) = insert alias (set (keys m))"
  by (auto simp: add_alias_def keys_def dom_update)

lemma dict_get_add_alias:
  "k \<noteq> alias \<Longrightarrow> dict_get (add_alias (alias, target) m) k = dict_get m k"
  by (simp add: dict_get_def map_of_add_alias)

lemma add_aliases_keeps:
  "k \<in> set (keys m) \<Longrightarrow>
   map_of (add_aliases pairs m) k = map_of m k \<and> k \<in> set (keys (add_aliases pairs m))"
proof (induction pairs arbitrary: m)
  case Nil
  then show ?case by (simp add: add_aliases_def)
next
  case (Cons p pairs)
  obtain a t where p: "p = (a, t)" by (cases p)
  from Cons.prems have k: "k \<in> set (keys (add_alias (a, t) m))"
    by (simp add: keys_add_alias)
  from Cons.prems have "map_of (add_alias (a, t) m) k = map_of m k"
    by (auto simp: map_of_add_alias)
  with Cons.IH [OF k] show ?case
    by (simp add: add_aliases_def p)
qed

text \<open>
  C4. For every scan result and every pair (alias, source) of the fixed alias table:
  propagation changes no key the scan holds (so an alias that is already a key keeps
  its value); an alias that is not a key is bound to what \<open>get\<close> gives for its source
  (the source's value, or \<open>None\<close> when the source is missing or bound to \<open>None\<close>), read
  when the alias is resolved. Afterwards \<open>get\<close> agrees on the alias and on its source, and
  when the source is a key the two entries are equal.
\<close>

theorem alias_propagation:
  assumes "(alias, target) \<in> set alias_pairs"
  shows "(\<forall>k \<in> set (keys scan). map_of (add_aliases alias_pairs scan) k = map_of scan k)
       \<and> (alias \<notin> set (keys scan) \<longrightarrow>
            map_of (add_aliases alias_pairs scan) alias = Some (dict_get scan target)
          \<and> dict_get (add_aliases alias_pairs scan) alias
              = dict_get (add_aliases alias_pairs scan) target)
       \<and> (alias \<notin> set (keys scan) \<and> target \<in> set (keys scan) \<longrightarrow>
            map_of (add_aliases alias_pairs scan) alias
              = map_of (add_aliases alias_pairs scan) target)
       \<and> (\<forall>m. map_of (add_alias (alias, target) m) alias =
              (if alias \<in> set (keys m) then map_of m alias else Some (dict_get m target)))"
proof -
  have kept: "\<forall>k \<in> set (keys scan). map_of (add_aliases alias_pairs scan) k = map_of scan k"
    by (simp add: add_aliases_keeps)
  have step: "\<forall>m. map_of (add_alias (alias, target) m) alias =
              (if alias \<in> set (keys m) then map_of m alias else Some (dict_get m target))"
    by (simp add: map_of_add_alias)
  from assms
  have "(alias, target) = (''database'', ''db'') \<or> (alias, target) = (''secret/cert'', ''nginx'')
        \<or> (alias, target) = (''secret/core'', ''core'')"
    by (simp add: alias_pairs_def)
  then have added: "alias \<notin> set (keys scan) \<longrightarrow>
            map_of (add_aliases alias_pairs scan) alias = Some (dict_get scan target)
          \<and> dict_get (add_aliases alias_pairs scan) alias
              = dict_get (add_aliases alias_pairs scan) target"
    by (elim disjE)
      (auto simp: alias_pairs_def add_aliases_def map_of_add_alias keys_add_alias
         dict_get_add_alias dict_get_def)
  have same: "map_of (add_aliases alias_pairs scan) alias
              = map_of (add_aliases alias_pairs scan) target"
    if "alias \<notin> set (keys scan) \<and> target \<in> set (keys scan)"
  proof -
    from that obtain v where v: "map_of scan target = Some v"
      by (cases "map_of scan target") (auto simp: keys_def map_of_eq_None_iff)
    from that kept have "map_of (add_aliases alias_pairs scan) target = Some v"
      by (simp add: v)
    moreover from that added have "map_of (add_aliases alias_pairs scan) alias = Some v"
      by (simp add: dict_get_def v)
    ultimately show ?thesis
      by simp
  qed
  from kept added same step show ?thesis
    by blast
qed

theorem alias_propagation_witness:
  "map_of (add_aliases alias_pairs [(''core'', None), (''db'', Some ''999''), (''nginx'', Some ''10000'')])
      ''database'' = Some (Some ''999'')
   \<and> dict_get (add_aliases alias_pairs [(''core'', None), (''db'', Some ''999''), (''nginx'', Some ''10000'')])
      ''database'' = Some ''999''
   \<and> map_of (add_aliases alias_pairs [(''core'', None), (''db'', Some ''999''), (''nginx'', Some ''10000'')])
      ''db'' = Some (Some ''999'')"
  using alias_propagation [of "''database''" "''db''"
      "[(''core'', None), (''db'', Some ''999''), (''nginx'', Some ''10000'')]"]
  by (simp add: alias_pairs_def keys_def dict_get_def)

section \<open>Properties of the registry lookup\<close>

text \<open>
  C10. A registry line with fewer than three colon-delimited fields is skipped, whatever
  its first field: it is neither a match nor an error. The lookup's result is decided by
  the first record of the user (a line with at least three fields whose first field is
  the user's name): its second field read as an integer, or the fatal "Invalid subuid
  base" when \<open>int\<close> rejects that field; with no such record the lookup is fatal too.
\<close>

theorem subuid_first_record:
  "subuid_scan username lines =
     (case find (subuid_record username) lines of
        None \<Rightarrow> Inl (SystemExit (''No subuid entry found for user '' @ username))
      | Some l \<Rightarrow> subuid_base_of username l)
   \<and> (length (split_sep (CHR '':'') (strip raw_line)) < 3 \<longrightarrow>
        subuid_scan username (raw_line # lines) = subuid_scan username lines)"
proof
  show "subuid_scan username lines =
     (case find (subuid_record username) lines of
        None \<Rightarrow> Inl (SystemExit (''No subuid entry found for user '' @ username))
      | Some l \<Rightarrow> subuid_base_of username l)"
    by (induction lines)
      (auto simp: Let_def subuid_record_def subuid_base_of_def split: option.splits)
  show "length (split_sep (CHR '':'') (strip raw_line)) < 3 \<longrightarrow>
        subuid_scan username (raw_line # lines) = subuid_scan username lines"
    by (simp add: Let_def)
qed

theorem subuid_first_record_witness:
  "subuid_scan ''alice'' [''alice:5'', ''# alice:1:2'', ''alice:100000:65536'', ''alice:7:8'']
     = Inr 100000"
proof -
  have short: "length (split_sep (CHR '':'') (strip ''alice:5'')) < 3"
    by (simp add: str_defs)
  have found: "find (subuid_record ''alice'') [''# alice:1:2'', ''alice:100000:65536'', ''alice:7:8'']
                 = Some ''alice:100000:65536''"
    by (simp add: subuid_record_def str_defs)
  have base: "subuid_base_of ''alice'' ''alice:100000:65536'' = Inr 100000"
    by (simp add: subuid_base_of_def str_defs py_int_def int_blank_def int_unsigned_def
        isdecimal_def digits_value_def)
  from subuid_first_record [of "''alice''" "[''# alice:1:2'', ''alice:100000:65536'', ''alice:7:8'']" "''alice:5''"]
  have "subuid_scan ''alice'' [''alice:5'', ''# alice:1:2'', ''alice:100000:65536'', ''alice:7:8'']
          = (case find (subuid_record ''alice'') [''# alice:1:2'', ''alice:100000:65536'', ''alice:7:8''] of
               None \<Rightarrow> Inl (SystemExit (''No subuid entry found for user '' @ ''alice''))
             | Some l \<Rightarrow> subuid_base_of ''alice'' l)"
    using short by (elim conjE) (simp only: simp_thms)
  then show ?thesis
    unfolding found by (simp only: option.case base)
qed

section \<open>Properties of the ACL applicator\<close>

lemmas example_env_defs = example_env_def only_dirs_def always_exit_def join_spaces_def
  path_join_def startswith_def endswith_def setfacl_command_def str_int_def str_nat.simps
  digit_of_def

lemma apply_entries_append:
  "apply_entries e root dry_run (before @ rest) st =
     (case apply_entries e root dry_run before st of
        Aborted err s \<Rightarrow> Aborted err s
      | Completed s \<Rightarrow> apply_entries e root dry_run rest s)"
proof (induction before arbitrary: st)
  case Nil
  show ?case by simp
next
  case (Cons entry before)
  obtain name uid where entry: "entry = (name, uid)" by (cases entry)
  show ?case
    by (simp add: entry Cons.IH Let_def split: option.splits outcome.splits)
qed

text \<open>
  C9. In a run that is not a dry run: when the entries before a directory have been
  handled without a failure and the grant for that directory fails (the tool is not
  found, or it exits with a code other than zero), the run ends at that directory with
  the fatal error, whatever entries follow: the state is the one reached before the
  directory plus the failed command, so no later entry is granted, printed or counted.
  \<open>main\<close> ends with the same error and prints no tally.
\<close>

theorem grant_failure_aborts:
  assumes "apply_entries e root False before st = Completed st1"
    and "isdir e (path_join root name)"
    and "grant_fails e st1 (setfacl_command (path_join root name) uid)"
  shows "apply_entries e root False (before @ (name, Some uid) # rest) st =
           Aborted
             (case run_command e (calls st1) (setfacl_command (path_join root name) uid) of
                NotFound \<Rightarrow> SystemExit ''setfacl command not found''
              | Exited returncode stderr \<Rightarrow>
                  setfacl_failure (path_join root name) returncode stderr)
             (st1\<lparr>calls := calls st1 @ [setfacl_command (path_join root name) uid]\<rparr>)
       \<and> (isdir e root \<and> st = initial_state
            \<and> sort_key fst host_map = before @ (name, Some uid) # rest \<longrightarrow>
          apply_main e root False (Inr host_map) =
            Aborted
              (case run_command e (calls st1) (setfacl_command (path_join root name) uid) of
                 NotFound \<Rightarrow> SystemExit ''setfacl command not found''
               | Exited returncode stderr \<Rightarrow>
                   setfacl_failure (path_join root name) returncode stderr)
              (st1\<lparr>calls := calls st1 @ [setfacl_command (path_join root name) uid]\<rparr>))"
proof -
  have "apply_setfacl e (path_join root name) uid False st1 =
           Aborted
             (case run_command e (calls st1) (setfacl_command (path_join root name) uid) of
                NotFound \<Rightarrow> SystemExit ''setfacl command not found''
              | Exited returncode stderr \<Rightarrow>
                  setfacl_failure (path_join root name) returncode stderr)
             (st1\<lparr>calls := calls st1 @ [setfacl_command (path_join root name) uid]\<rparr>)"
    using assms(3)
    by (simp add: apply_setfacl_def grant_fails_def Let_def split: proc_result.splits)
  with assms(1,2) have entries:
    "apply_entries e root False (before @ (name, Some uid) # rest) st =
           Aborted
             (case run_command e (calls st1) (setfacl_command (path_join root name) uid) of
                NotFound \<Rightarrow> SystemExit ''setfacl command not found''
              | Exited returncode stderr \<Rightarrow>
                  setfacl_failure (path_join root name) returncode stderr)
             (st1\<lparr>calls := calls st1 @ [setfacl_command (path_join root name) uid]\<rparr>)"
    by (simp add: apply_entries_append Let_def)
  then show ?thesis
    by (auto simp: apply_main_def)
qed

theorem grant_failure_aborts_witness:
  "apply_entries (example_env [''/r'', ''/r/app'', ''/r/db''] 1) ''/r'' False
     ([(''a'', None)] @ (''app'', Some 1000) # [(''db'', Some 5)]) initial_state =
   Aborted (SystemExit ''setfacl failed for /r/app: exit code 1'')
     \<lparr>processed = 0, printed = [''Skipping a: no host UID defined''],
        calls = [[''setfacl'', ''-R'', ''-m'', ''u:1000:rwx'', ''-m'', ''g:1000:rwx'', ''/r/app'']]\<rparr>"
proof -
  let ?e = "example_env [''/r'', ''/r/app'', ''/r/db''] 1"
  let ?st1 = "\<lparr>processed = 0, printed = [''Skipping a: no host UID defined''], calls = []\<rparr>"
  have before: "apply_entries ?e ''/r'' False [(''a'', None)] initial_state = Completed ?st1"
    by (simp add: initial_state_def)
  have dir: "isdir ?e (path_join ''/r'' ''app'')"
    by (simp add: example_env_defs)
  have fails: "grant_fails ?e ?st1 (setfacl_command (path_join ''/r'' ''app'') 1000)"
    by (simp add: grant_fails_def example_env_defs)
  have err: "(case run_command ?e (calls ?st1) (setfacl_command (path_join ''/r'' ''app'') 1000) of
                NotFound \<Rightarrow> SystemExit ''setfacl command not found''
              | Exited returncode stderr \<Rightarrow>
                  setfacl_failure (path_join ''/r'' ''app'') returncode stderr)
             = SystemExit ''setfacl failed for /r/app: exit code 1''"
    by (simp add: example_env_defs setfacl_failure_def strip_def strip_with_def)
  have st: "?st1\<lparr>calls := calls ?st1 @ [setfacl_command (path_join ''/r'' ''app'') 1000]\<rparr>
      = \<lparr>processed = 0, printed = [''Skipping a: no host UID defined''],
        calls = [[''setfacl'', ''-R'', ''-m'', ''u:1000:rwx'', ''-m'', ''g:1000:rwx'', ''/r/app'']]\<rparr>"
    by (simp add: example_env_defs)
  show ?thesis
    using grant_failure_aborts [OF before dir fails, of "[(''db'', Some 5)]", THEN conjunct1]
    unfolding err st .
qed

lemma apply_setfacl_ok:
  "dry_run \<or> \<not> grant_fails e st (setfacl_command target u) \<Longrightarrow>
   apply_setfacl e target u dry_run st =
     Completed (if dry_run
                then st\<lparr>printed := printed st @ [''DRY-RUN '' @ shlex_join e (setfacl_command target u)]\<rparr>
                else st\<lparr>calls := calls st @ [setfacl_command target u]\<rparr>)"
  by (auto simp: apply_setfacl_def grant_fails_def Let_def split: proc_result.splits)

lemma completed_tally:
  "apply_entries e root dry_run entries st = Completed final \<Longrightarrow>
   processed final = processed st + length (filter (granted e root) entries)
   \<and> length (calls final) =
       length (calls st) + (if dry_run then 0 else length (filter (granted e root) entries))"
proof (induction entries arbitrary: st)
  case Nil
  then show ?case by simp
next
  case (Cons entry entries)
  obtain name uid where entry: "entry = (name, uid)" by (cases entry)
  show ?case
  proof (cases "granted e root entry")
    case False
    with Cons.prems entry obtain line where
      "apply_entries e root dry_run entries (st\<lparr>printed := printed st @ [line]\<rparr>) = Completed final"
      by (auto simp: granted_def Let_def split: option.splits)
    from Cons.IH [OF this] False show ?thesis by simp
  next
    case True
    then obtain u where u: "uid = Some u" and d: "isdir e (path_join root name)"
      by (auto simp: granted_def entry)
    from Cons.prems entry u d obtain st' where
      a: "apply_setfacl e (path_join root name) u dry_run st = Completed st'" and
      r: "apply_entries e root dry_run entries (st'\<lparr>processed := processed st' + 1\<rparr>) = Completed final"
      by (auto simp: Let_def split: outcome.splits)
    from a have "processed st' = processed st
       \<and> length (calls st') = length (calls st) + (if dry_run then 0 else 1)"
      by (auto simp: apply_setfacl_def Let_def split: if_splits proc_result.splits)
    with Cons.IH [OF r] True show ?thesis by simp
  qed
qed

lemma dry_run_completes:
  "\<exists>final. apply_entries e root True entries st = Completed final"
proof (induction entries arbitrary: st)
  case Nil
  show ?case by simp
next
  case (Cons entry entries)
  obtain name uid where entry: "entry = (name, uid)" by (cases entry)
  show ?case
    using Cons.IH
    by (simp add: entry Let_def apply_setfacl_def split: option.splits)
qed

text \<open>
  C8, as amended. An entry whose UID is absent, or whose directory does not exist, is
  skipped: one "Skipping" line is printed, no command is run, the tally is unchanged and
  the run goes on with the next entry. An entry with a UID and a directory whose grant
  does not fail (a dry run never fails) adds one to the tally, and the run goes on. A run
  that completes therefore reports as its tally the number of entries with a UID and a
  directory, and a dry run always completes and runs no command.
\<close>

theorem entry_skipped_or_counted:
  "(uid = None \<or> \<not> isdir e (path_join root name) \<longrightarrow>
      apply_entries e root dry_run ((name, uid) # rest) st =
        apply_entries e root dry_run rest
          (st\<lparr>printed := printed st
             @ [''Skipping '' @ name
                @ (if uid = None then '': no host UID defined''
                   else '': directory not found at '' @ path_join root name)]\<rparr>))
   \<and> (uid = Some u \<and> isdir e (path_join root name)
        \<and> (dry_run \<or> \<not> grant_fails e st (setfacl_command (path_join root name) u)) \<longrightarrow>
      (\<exists>st'. apply_setfacl e (path_join root name) u dry_run st = Completed st'
         \<and> processed st' = processed st
         \<and> apply_entries e root dry_run ((name, uid) # rest) st =
             apply_entries e root dry_run rest (st'\<lparr>processed := processed st + 1\<rparr>)))
   \<and> (apply_entries e root dry_run entries st = Completed final \<longrightarrow>
        processed final = processed st + length (filter (granted e root) entries)
        \<and> length (calls final) =
            length (calls st) + (if dry_run then 0 else length (filter (granted e root) entries)))
   \<and> (\<exists>final. apply_entries e root True entries st = Completed final)"
proof (intro conjI impI)
  assume "uid = None \<or> \<not> isdir e (path_join root name)"
  then show "apply_entries e root dry_run ((name, uid) # rest) st =
        apply_entries e root dry_run rest
          (st\<lparr>printed := printed st
             @ [''Skipping '' @ name
                @ (if uid = None then '': no host UID defined''
                   else '': directory not found at '' @ path_join root name)]\<rparr>)"
    by (cases uid) (auto simp: Let_def)
next
  assume a: "uid = Some u \<and> isdir e (path_join root name)
        \<and> (dry_run \<or> \<not> grant_fails e st (setfacl_command (path_join root name) u))"
  then have "dry_run \<or> \<not> grant_fails e st (setfacl_command (path_join root name) u)"
    by simp
  from apply_setfacl_ok [OF this] a
  show "\<exists>st'. apply_setfacl e (path_join root name) u dry_run st = Completed st'
         \<and> processed st' = processed st
         \<and> apply_entries e root dry_run ((name, uid) # rest) st =
             apply_entries e root dry_run rest (st'\<lparr>processed := processed st + 1\<rparr>)"
    by (simp add: Let_def)
next
  assume "apply_entries e root dry_run entries st = Completed final"
  from completed_tally [OF this]
  show "processed final = processed st + length (filter (granted e root) entries)"
    and "length (calls final) =
            length (calls st) + (if dry_run then 0 else length (filter (granted e root) entries))"
    by simp_all
next
  show "\<exists>final. apply_entries e root True entries st = Completed final"
    by (rule dry_run_completes)
qed

theorem entry_skipped_or_counted_witness:
  "apply_entries (example_env [''/r'', ''/r/app''] 0) ''/r'' True
     [(''a'', None), (''app'', Some 1000), (''db'', Some 5)] initial_state =
   Completed
     \<lparr>processed = 1,
        printed = [''Skipping a: no host UID defined'',
          ''DRY-RUN setfacl -R -m u:1000:rwx -m g:1000:rwx /r/app '',
          ''Skipping db: directory not found at /r/db''],
        calls = []\<rparr>"
proof -
  let ?e = "example_env [''/r'', ''/r/app''] 0"
  let ?rest = "[(''app'', Some 1000), (''db'', Some 5)]"
  have "apply_entries ?e ''/r'' True ((''a'', None) # ?rest) initial_state =
        apply_entries ?e ''/r'' True ?rest
          (initial_state\<lparr>printed := printed initial_state
             @ [''Skipping '' @ ''a''
                @ (if (None :: int option) = None then '': no host UID defined''
                   else '': directory not found at '' @ path_join ''/r'' ''a'')]\<rparr>)"
    using entry_skipped_or_counted [of None ?e "''/r''" "''a''" True ?rest initial_state]
    by (simp only: simp_thms)
  also have "\<dots> = Completed
     \<lparr>processed = 1,
        printed = [''Skipping a: no host UID defined'',
          ''DRY-RUN setfacl -R -m u:1000:rwx -m g:1000:rwx /r/app '',
          ''Skipping db: directory not found at /r/db''],
        calls = []\<rparr>"
    by (simp add: apply_setfacl_def initial_state_def example_env_defs)
  finally show ?thesis .
qed

text \<open>
  C8 as stated fails where the grant fails: the entry has a UID and its directory exists,
  yet the run ends there and the tally has not moved.
\<close>

theorem processed_tally_counterexample:
  "apply_main (example_env [''/r'', ''/r/app''] 1) ''/r'' False (Inr [(''app'', Some 1000)]) =
   Aborted (SystemExit ''setfacl failed for /r/app: exit code 1'')
     \<lparr>processed = 0, printed = [],
        calls = [[''setfacl'', ''-R'', ''-m'', ''u:1000:rwx'', ''-m'', ''g:1000:rwx'', ''/r/app'']]\<rparr>"
  by (simp add: apply_main_def apply_setfacl_def initial_state_def example_env_defs
      setfacl_failure_def strip_def strip_with_def)

section \<open>Properties of the UID extraction\<close>

lemma startswith_decompose: "startswith s p \<longleftrightarrow> (\<exists>r. s = p @ r)"
  unfolding startswith_def
  by (metis append_eq_conv_conj append_take_drop_id)

lemma long_flag_value:
  assumes "startswith token ''--uid=''"
  shows "snd (split_once (CHR ''='') token) = drop 6 token"
proof -
  from assms obtain r where "token = ''--uid='' @ r"
    by (auto simp: startswith_decompose)
  then show ?thesis
    by (simp add: split_once_def)
qed

lemma short_flag_value:
  assumes "startswith token ''-u''"
  shows "(let candidate = drop 2 token;
              candidate = (if startswith candidate ''='' then drop 1 candidate else candidate)
          in if isdigit candidate then Some candidate else None)
         = (if startswith token ''-u='' \<and> isdigit (drop 3 token) then Some (drop 3 token)
            else if isdigit (drop 2 token) then Some (drop 2 token)
            else None)"
proof -
  from assms obtain r where t: "token = ''-u'' @ r"
    by (auto simp: startswith_decompose)
  show ?thesis
  proof (cases "startswith r ''=''")
    case True
    then obtain r' where r: "r = ''='' @ r'"
      by (auto simp: startswith_decompose)
    have "\<not> isdigit (CHR ''='' # r')"
      by (simp add: isdigit_def isdigit_char_def)
    then show ?thesis
      by (simp add: t r startswith_def)
  next
    case False
    then have "\<not> startswith token ''-u=''"
      by (auto simp: t startswith_def)
    with False show ?thesis
      by (simp add: t)
  qed
qed

lemma not_short_and_long:
  "startswith token ''--uid='' \<Longrightarrow> \<not> startswith token ''-u''"
  by (auto simp: startswith_decompose)

lemma extract_step:
  "extract_uid_from_tokens (token # rest) =
     (case marked_value token rest of
        Some val \<Rightarrow> Some val
      | None \<Rightarrow> extract_uid_from_tokens rest)"
proof (cases "token = ''-u'' \<or> token = ''--uid''")
  case True
  then show ?thesis
    by (auto simp: marked_value_def split: list.splits)
next
  case standalone: False
  show ?thesis
  proof (cases "startswith token ''-u''")
    case True
    then have "\<not> startswith token ''--uid=''"
      using not_short_and_long by blast
    with standalone True show ?thesis
      using short_flag_value [OF True]
      by (simp add: marked_value_def)
  next
    case False
    then have "\<not> startswith token ''-u=''"
      by (auto simp: startswith_decompose)
    with standalone False show ?thesis
      by (simp add: marked_value_def long_flag_value)
  qed
qed

lemma extract_is_first_marked: "extract_uid_from_tokens tokens = first_marked tokens"
proof (induction tokens)
  case Nil
  show ?case by simp
next
  case (Cons token rest)
  then show ?case
    by (simp only: extract_step first_marked.simps)
qed

lemma marked_value_numeric: "marked_value token rest = Some uid \<Longrightarrow> isdigit uid"
  by (auto simp: marked_value_def split: if_splits list.splits)

lemma first_marked_numeric: "first_marked tokens = Some uid \<Longrightarrow> isdigit uid"
  by (induction tokens) (auto split: option.splits dest: marked_value_numeric)

lemma find_uid_in_lines_find:
  "find_uid_in_lines shlex_split lines =
     (case find (\<lambda>line. first_marked (tokens_of shlex_split line) \<noteq> None) lines of
        None \<Rightarrow> None
      | Some line \<Rightarrow> first_marked (tokens_of shlex_split line))"
  by (induction lines) (auto simp: extract_is_first_marked split: option.splits)

lemma find_uid_in_lines_stops:
  "\<forall>l \<in> set before. first_marked (tokens_of shlex_split l) = None \<Longrightarrow>
   first_marked (tokens_of shlex_split line) = Some uid \<Longrightarrow>
   find_uid_in_lines shlex_split (before @ line # rest) = Some uid"
  by (induction before) (auto simp: extract_is_first_marked)

text \<open>
  C5. The token scan returns the first value marked, left to right, where a token marks
  a value as a standalone \<open>-u\<close> or \<open>--uid\<close> followed by it, as \<open>-uNNN\<close> or \<open>-u=NNN\<close>, or as
  \<open>--uid=NNN\<close>, and only purely numeric values count. A line's tokens are those of the
  shell-style split, or the whitespace-separated words when that split fails on
  unbalanced quoting. A file's result is the scan of its first logical line that has a
  marked value: the lines after it are not looked at.
\<close>

theorem uid_extraction:
  "extract_uid_from_tokens tokens = first_marked tokens
   \<and> (extract_uid_from_tokens tokens = Some uid \<longrightarrow> isdigit uid)
   \<and> tokens_of shlex_split line =
       (case shlex_split line of Some shell_tokens \<Rightarrow> shell_tokens | None \<Rightarrow> split_ws line)
   \<and> find_uid_in_lines shlex_split lines =
       (case find (\<lambda>l. first_marked (tokens_of shlex_split l) \<noteq> None) lines of
          None \<Rightarrow> None
        | Some l \<Rightarrow> first_marked (tokens_of shlex_split l))
   \<and> ((\<forall>l \<in> set before. first_marked (tokens_of shlex_split l) = None)
        \<and> first_marked (tokens_of shlex_split line) = Some uid \<longrightarrow>
        find_uid_in_lines shlex_split (before @ line # rest) = Some uid)"
proof (intro conjI impI)
  show "extract_uid_from_tokens tokens = first_marked tokens"
    by (rule extract_is_first_marked)
  show "isdigit uid" if "extract_uid_from_tokens tokens = Some uid"
    using that by (simp add: extract_is_first_marked first_marked_numeric)
  show "tokens_of shlex_split line =
       (case shlex_split line of Some shell_tokens \<Rightarrow> shell_tokens | None \<Rightarrow> split_ws line)"
    by (simp add: tokens_of_def)
  show "find_uid_in_lines shlex_split lines =
       (case find (\<lambda>l. first_marked (tokens_of shlex_split l) \<noteq> None) lines of
          None \<Rightarrow> None
        | Some l \<Rightarrow> first_marked (tokens_of shlex_split l))"
    by (rule find_uid_in_lines_find)
  show "find_uid_in_lines shlex_split (before @ line # rest) = Some uid"
    if "(\<forall>l \<in> set before. first_marked (tokens_of shlex_split l) = None)
        \<and> first_marked (tokens_of shlex_split line) = Some uid"
    using that find_uid_in_lines_stops by blast
qed

lemmas token_defs = tokens_of_def shlex_unquoted_def split_ws_def isspace_def marked_value_def
  startswith_def isdigit_def isdigit_char_def

theorem uid_extraction_witness:
  "find_uid_in_lines shlex_unquoted
     ([''USER app''] @ ''RUN adduser -u 2000 app'' # [''RUN adduser --uid=3000 other'']) = Some ''2000''"
proof -
  have none: "\<forall>l \<in> set [''USER app'']. first_marked (tokens_of shlex_unquoted l) = None"
    by (simp add: token_defs)
  have some: "first_marked (tokens_of shlex_unquoted ''RUN adduser -u 2000 app'') = Some ''2000''"
    by (simp add: token_defs)
  note stops = uid_extraction [where shlex_split = shlex_unquoted
      and line = "''RUN adduser -u 2000 app''" and before = "[''USER app'']" and uid = "''2000''"
      and rest = "[''RUN adduser --uid=3000 other'']" and tokens = "[]" and lines = "[]",
      THEN conjunct2, THEN conjunct2, THEN conjunct2, THEN conjunct2]
  show ?thesis
    by (rule stops [THEN mp, OF conjI [OF none some]])
qed

section \<open>Properties of the logical-line reader\<close>

lemma comment_not_blank: "comment_line raw_line \<Longrightarrow> \<not> blank_line raw_line"
  by (auto simp: comment_line_def blank_line_def startswith_def)

lemma effective_lines_comment:
  "comment_line raw_line \<Longrightarrow>
   effective_lines pending (raw_line # rest) = effective_lines pending rest"
  using comment_not_blank [of raw_line]
  by (simp add: comment_line_def blank_line_def Let_def)

lemma effective_lines_blank:
  "blank_line raw_line \<Longrightarrow>
   effective_lines pending (raw_line # rest) =
     (if pending = [] then [] else [strip pending]) @ effective_lines [] rest"
  by (simp add: blank_line_def Let_def)

lemma effective_lines_continued:
  "\<not> blank_line raw_line \<Longrightarrow> \<not> comment_line raw_line \<Longrightarrow> continued_line raw_line \<Longrightarrow>
   effective_lines pending (raw_line # rest) =
     effective_lines (pending @ butlast (rstrip_with (\<lambda>c. c = LF) raw_line) @ '' '') rest"
  by (simp add: comment_line_def blank_line_def continued_line_def Let_def)

lemma effective_lines_plain:
  "\<not> blank_line raw_line \<Longrightarrow> \<not> comment_line raw_line \<Longrightarrow> \<not> continued_line raw_line \<Longrightarrow>
   effective_lines pending (raw_line # rest) =
     strip (pending @ rstrip_with (\<lambda>c. c = LF) raw_line) # effective_lines [] rest"
  by (auto simp: comment_line_def blank_line_def continued_line_def Let_def strip_def
      strip_with_def)

lemma effective_lines_filter:
  "effective_lines pending (filter (\<lambda>l. \<not> comment_line l) raw_lines) =
   effective_lines pending raw_lines"
proof (induction raw_lines arbitrary: pending)
  case Nil
  show ?case by simp
next
  case (Cons raw_line raw_lines)
  show ?case
  proof (cases "comment_line raw_line")
    case True
    then show ?thesis
      by (simp add: effective_lines_comment Cons.IH del: effective_lines.simps)
  next
    case False
    then show ?thesis
      by (simp add: Cons.IH Let_def)
  qed
qed

text \<open>
  C6. Reading a file gives the same logical lines as reading it with its comment lines
  (first character \<open>#\<close> after leading blanks) removed: a comment is dropped and leaves the
  pending text as it is. A blank line flushes the pending text, if there is any. A line
  that ends in a backslash is appended to the pending text without the backslash and
  with one space after it, so that it is joined with the next line that is neither
  blank nor a comment; a line with no backslash at its end completes the logical line,
  which is yielded stripped.
\<close>

theorem logical_lines:
  "effective_lines pending (filter (\<lambda>l. \<not> comment_line l) raw_lines) =
     effective_lines pending raw_lines
   \<and> (comment_line raw_line \<longrightarrow>
        effective_lines pending (raw_line # rest) = effective_lines pending rest)
   \<and> (blank_line raw_line \<longrightarrow>
        effective_lines pending (raw_line # rest) =
          (if pending = [] then [] else [strip pending]) @ effective_lines [] rest)
   \<and> (\<not> blank_line raw_line \<and> \<not> comment_line raw_line \<and> continued_line raw_line \<longrightarrow>
        effective_lines pending (raw_line # rest) =
          effective_lines (pending @ butlast (rstrip_with (\<lambda>c. c = LF) raw_line) @ '' '') rest)
   \<and> (\<not> blank_line raw_line \<and> \<not> comment_line raw_line \<and> continued_line raw_line
        \<and> \<not> blank_line next_line \<and> \<not> comment_line next_line \<and> \<not> continued_line next_line \<longrightarrow>
        effective_lines pending (raw_line # next_line # rest) =
          strip (pending @ butlast (rstrip_with (\<lambda>c. c = LF) raw_line) @ '' ''
                 @ rstrip_with (\<lambda>c. c = LF) next_line)
          # effective_lines [] rest)
   \<and> (\<not> blank_line raw_line \<and> \<not> comment_line raw_line \<and> \<not> continued_line raw_line \<longrightarrow>
        effective_lines pending (raw_line # rest) =
          strip (pending @ rstrip_with (\<lambda>c. c = LF) raw_line) # effective_lines [] rest)"
proof (intro conjI impI)
  show "effective_lines pending (filter (\<lambda>l. \<not> comment_line l) raw_lines) =
     effective_lines pending raw_lines"
    by (rule effective_lines_filter)
  show "effective_lines pending (raw_line # rest) = effective_lines pending rest"
    if "comment_line raw_line"
    using that by (rule effective_lines_comment)
  show "effective_lines pending (raw_line # rest) =
          (if pending = [] then [] else [strip pending]) @ effective_lines [] rest"
    if "blank_line raw_line"
    using that by (rule effective_lines_blank)
  show "effective_lines pending (raw_line # rest) =
          effective_lines (pending @ butlast (rstrip_with (\<lambda>c. c = LF) raw_line) @ '' '') rest"
    if "\<not> blank_line raw_line \<and> \<not> comment_line raw_line \<and> continued_line raw_line"
    using that by (simp add: effective_lines_continued del: effective_lines.simps)
  show "effective_lines pending (raw_line # next_line # rest) =
          strip (pending @ butlast (rstrip_with (\<lambda>c. c = LF) raw_line) @ '' ''
                 @ rstrip_with (\<lambda>c. c = LF) next_line)
          # effective_lines [] rest"
    if "\<not> blank_line raw_line \<and> \<not> comment_line raw_line \<and> continued_line raw_line
        \<and> \<not> blank_line next_line \<and> \<not> comment_line next_line \<and> \<not> continued_line next_line"
    using that
    by (simp add: effective_lines_continued effective_lines_plain del: effective_lines.simps)
  show "effective_lines pending (raw_line # rest) =
          strip (pending @ rstrip_with (\<lambda>c. c = LF) raw_line) # effective_lines [] rest"
    if "\<not> blank_line raw_line \<and> \<not> comment_line raw_line \<and> \<not> continued_line raw_line"
    using that by (simp add: effective_lines_plain del: effective_lines.simps)
qed

lemmas line_defs = blank_line_def comment_line_def continued_line_def rstrip_with_def strip_def
  strip_with_def isspace_def startswith_def endswith_def backslash_def LF_def

theorem logical_lines_witness:
  "effective_lines [] ((''RUN adduser '' @ [backslash, LF]) # (''  -u 2000 app'' @ [LF]) # [])
     = [''RUN adduser    -u 2000 app'']"
proof -
  let ?first = "''RUN adduser '' @ [backslash, LF]"
  let ?second = "''  -u 2000 app'' @ [LF]"
  have kinds: "\<not> blank_line ?first \<and> \<not> comment_line ?first \<and> continued_line ?first
        \<and> \<not> blank_line ?second \<and> \<not> comment_line ?second \<and> \<not> continued_line ?second"
    by (simp add: line_defs)
  have joined: "strip ([] @ butlast (rstrip_with (\<lambda>c. c = LF) ?first) @ '' ''
                 @ rstrip_with (\<lambda>c. c = LF) ?second) # effective_lines [] []
        = [''RUN adduser    -u 2000 app'']"
    by (simp add: line_defs)
  note join = logical_lines [where pending = "[]" and raw_line = ?first and next_line = ?second
      and rest = "[]" and raw_lines = "[]",
      THEN conjunct2, THEN conjunct2, THEN conjunct2, THEN conjunct2, THEN conjunct1]
  show ?thesis
    using join [THEN mp, OF kinds] unfolding joined .
qed

section \<open>Properties of the mapping store\<close>

subsection \<open>Digits\<close>

lemma below_ten: "(d::nat) < 10 \<longleftrightarrow> d \<in> {0, 1, 2, 3, 4, 5, 6, 7, 8, 9}"
  by auto

lemma digit_of_code: "d < 10 \<Longrightarrow> (of_char (digit_of d) :: nat) = 48 + d"
  by (auto simp: below_ten digit_of_def)

lemma digit_of_decimal: "d < 10 \<Longrightarrow> isdecimal (digit_of d)"
  by (simp add: isdecimal_def digit_of_code)

lemma str_nat_decimal: "list_all isdecimal (str_nat n) \<and> str_nat n \<noteq> []"
proof (induction n rule: str_nat.induct)
  case (1 n)
  show ?case
  proof (cases "n < 10")
    case True
    then show ?thesis
      by (simp add: str_nat.simps [of n] digit_of_decimal)
  next
    case False
    with "1" show ?thesis
      by (simp add: str_nat.simps [of n] digit_of_decimal)
  qed
qed

lemma digits_value_snoc:
  "digits_value (s @ [c]) = 10 * digits_value s + (of_char c - 48)"
  by (simp add: digits_value_def)

lemma digits_value_str_nat: "digits_value (str_nat n) = n"
proof (induction n rule: str_nat.induct)
  case (1 n)
  show ?case
  proof (cases "n < 10")
    case True
    then show ?thesis
      by (simp add: str_nat.simps [of n] digits_value_def digit_of_code)
  next
    case False
    with "1" have "digits_value (str_nat (n div 10)) = n div 10"
      by simp
    with False show ?thesis
      by (simp add: str_nat.simps [of n] digits_value_snoc digit_of_code)
  qed
qed

subsection \<open>Reading a decimal literal\<close>

lemma decimal_char:
  assumes "isdecimal c"
  shows "c \<noteq> CHR ''_''" and "c \<noteq> CHR ''-''" and "c \<noteq> CHR ''+''" and "\<not> int_blank c"
    and "\<not> isspace c" and "c \<noteq> dquote" and "isdigit_char c" and "c \<noteq> CHR ''~''"
    and "c \<noteq> CHR ''n''"
  using assms
  by (auto simp: isdecimal_def int_blank_def isspace_def dquote_def isdigit_char_def Let_def)

lemma decimal_literal: "s \<noteq> [] \<Longrightarrow> list_all isdecimal s \<Longrightarrow> int_literal s"
  by (induction s rule: int_literal.induct) (auto simp: decimal_char)

lemma decimal_no_underscore: "list_all isdecimal s \<Longrightarrow> filter (\<lambda>c. c \<noteq> CHR ''_'') s = s"
  by (induction s) (auto simp: decimal_char)

lemma strip_with_id:
  assumes "s \<noteq> []" and "\<not> p (hd s)" and "\<not> p (last s)"
  shows "strip_with p s = s"
proof -
  from assms(1,3) have "dropWhile p (rev s) = rev s"
    by (cases "rev s") (auto simp: last_rev hd_rev)
  moreover from assms(1,2) have "dropWhile p s = s"
    by (cases s) auto
  ultimately show ?thesis
    by (simp add: strip_with_def)
qed

lemma decimal_ends:
  assumes "s \<noteq> []" and "list_all isdecimal s"
  shows "isdecimal (hd s)" and "isdecimal (last s)"
  using assms by (auto simp: list_all_iff)

lemma py_int_decimal:
  assumes "s \<noteq> []" and "list_all isdecimal s"
  shows "py_int s = Some (int (digits_value s))"
proof -
  from assms have ends: "isdecimal (hd s)" "isdecimal (last s)"
    by (rule decimal_ends)+
  then have "strip_with int_blank s = s"
    using assms(1) by (intro strip_with_id) (simp_all add: decimal_char)
  moreover obtain c r where s: "s = c # r"
    using assms(1) by (cases s) auto
  moreover have "c \<noteq> CHR ''-''" "c \<noteq> CHR ''+''"
    using ends(1) by (simp_all add: s decimal_char)
  moreover have "int_unsigned s = Some (int (digits_value s))"
    using assms by (simp add: int_unsigned_def decimal_literal decimal_no_underscore)
  ultimately show ?thesis
    by (simp add: py_int_def)
qed

lemma isdigit_decimal: "s \<noteq> [] \<Longrightarrow> list_all isdecimal s \<Longrightarrow> isdigit s"
  by (auto simp: isdigit_def list_all_iff decimal_char)

lemma py_int_str_nat: "py_int (str_nat n) = Some (int n)"
  using str_nat_decimal [of n] by (simp add: py_int_decimal digits_value_str_nat)

lemma str_int_nonneg: "0 \<le> u \<Longrightarrow> str_int u = str_nat (nat u)"
  by (simp add: str_int_def)

subsection \<open>Lines of a written file\<close>

lemma universal_newlines_id: "CR \<notin> set s \<Longrightarrow> universal_newlines s = s"
  by (induction s rule: universal_newlines.induct) auto

lemma lines_acc_line:
  "LF \<notin> set l \<Longrightarrow> lines_acc cur (l @ LF # rest) = (cur @ l @ [LF]) # lines_acc [] rest"
  by (induction l arbitrary: cur) auto

lemma lines_acc_joined:
  "ls \<noteq> [] \<Longrightarrow> \<forall>l \<in> set ls. LF \<notin> set l \<Longrightarrow>
   lines_acc [] (join_lines ls @ [LF]) = map (\<lambda>l. l @ [LF]) ls"
proof (induction ls rule: join_lines.induct)
  case 1
  then show ?case by simp
next
  case (2 l)
  then show ?case
    using lines_acc_line [of l "[]" "[]"] by simp
next
  case (3 l m ls)
  then have "lines_acc [] (join_lines (m # ls) @ [LF]) = map (\<lambda>l. l @ [LF]) (m # ls)"
    by simp
  with "3.prems" show ?case
    using lines_acc_line [of l "[]" "join_lines (m # ls) @ [LF]"] by simp
qed

lemma set_join_lines: "set (join_lines ls) \<subseteq> insert LF (\<Union>l \<in> set ls. set l)"
  by (induction ls rule: join_lines.induct) auto

subsection \<open>Stripping\<close>

lemma strip_with_snoc: "p c \<Longrightarrow> strip_with p (s @ [c]) = strip_with p s"
  by (simp add: strip_with_def)

lemma strip_with_cons:
  assumes "p c" and "s \<noteq> []" and "\<not> p (last s)"
  shows "strip_with p (c # s) = strip_with p s"
proof -
  from assms(2,3) have "dropWhile p (rev s) = rev s"
    by (cases "rev s") (auto simp: last_rev hd_rev)
  moreover from assms(2,3) have "dropWhile p (rev s @ [c]) = rev s @ [c]"
    by (cases "rev s") (auto simp: last_rev hd_rev)
  ultimately show ?thesis
    using assms(1) by (simp add: strip_with_def)
qed

lemma dropWhile_keeps: "x \<in> set xs \<Longrightarrow> \<not> p x \<Longrightarrow> x \<in> set (dropWhile p xs)"
  by (induction xs) auto

lemma strip_with_keeps: "x \<in> set s \<Longrightarrow> \<not> p x \<Longrightarrow> x \<in> set (strip_with p s)"
  unfolding strip_with_def
  by (intro dropWhile_keeps) (simp_all add: dropWhile_keeps)

lemma strip_with_fixed_ends:
  assumes "strip_with p s = s" and "s \<noteq> []"
  shows "\<not> p (hd s)" and "\<not> p (last s)"
proof -
  let ?t = "rev (dropWhile p (rev s))"
  from assms have eq: "dropWhile p ?t = s"
    by (simp add: strip_with_def)
  with assms(2) show first: "\<not> p (hd s)"
    by (metis hd_dropWhile)
  from first assms(2) have t: "dropWhile p (rev s) \<noteq> []"
    by (auto intro: bexI [of _ "hd s"])
  then have "\<not> p (hd (dropWhile p (rev s)))"
    by (rule hd_dropWhile)
  with t have "\<not> p (last ?t)"
    by (simp add: last_rev)
  moreover have "last s = last ?t"
  proof -
    have "?t = takeWhile p ?t @ s"
      using eq by (metis takeWhile_dropWhile_id)
    with assms(2) show ?thesis
      by (metis last_appendR)
  qed
  ultimately show "\<not> p (last s)"
    by simp
qed

subsection \<open>One written line, read back\<close>

lemma isspace_LF: "isspace LF"
  by (simp add: isspace_def LF_def)

lemma isspace_blank: "isspace (CHR '' '')"
  by (simp add: isspace_def)

lemma plain_name_first:
  assumes "plain_name (c # r)"
  shows "\<not> isspace c" and "c \<noteq> CHR ''#''" and "c \<noteq> CHR '':''"
proof -
  from assms have "strip_with isspace (c # r) = c # r"
    by (simp add: plain_name_def strip_def)
  from strip_with_fixed_ends(1) [OF this] show "\<not> isspace c"
    by simp
  from assms show "c \<noteq> CHR ''#''" and "c \<noteq> CHR '':''"
    by (auto simp: plain_name_def startswith_def)
qed

lemma written_line_strip:
  assumes "plain_name name" and "vt \<noteq> []" and "\<not> isspace (last vt)"
  shows "strip ((name @ '': '' @ vt) @ [LF]) = name @ '': '' @ vt"
proof -
  have "\<not> isspace (hd (name @ '': '' @ vt))"
  proof (cases name)
    case Nil
    then show ?thesis by (simp add: isspace_def)
  next
    case (Cons c r)
    with assms(1) show ?thesis
      by (simp add: plain_name_first)
  qed
  moreover from assms(2,3) have "\<not> isspace (last (name @ '': '' @ vt))"
    by simp
  ultimately have "strip_with isspace (name @ '': '' @ vt) = name @ '': '' @ vt"
    by (intro strip_with_id) simp_all
  then show ?thesis
    by (simp add: strip_def strip_with_snoc isspace_LF del: append_assoc)
qed

lemma written_line_kind:
  assumes "plain_name name"
  shows "name @ '': '' @ vt \<noteq> []" and "\<not> startswith (name @ '': '' @ vt) ''#''"
    and "name @ '': '' @ vt \<noteq> ''{}''" and "name @ '': '' @ vt \<noteq> ''[]''"
    and "CHR '':'' \<in> set (name @ '': '' @ vt)"
proof -
  show "name @ '': '' @ vt \<noteq> []" and "CHR '':'' \<in> set (name @ '': '' @ vt)"
    by simp_all
  show "\<not> startswith (name @ '': '' @ vt) ''#''"
  proof (cases name)
    case Nil
    then show ?thesis by (simp add: startswith_def)
  next
    case (Cons c r)
    with assms show ?thesis
      by (simp add: startswith_def plain_name_first)
  qed
  have "CHR '':'' \<notin> set ''{}''" and "CHR '':'' \<notin> set ''[]''"
    by simp_all
  then show "name @ '': '' @ vt \<noteq> ''{}''" and "name @ '': '' @ vt \<noteq> ''[]''"
    by (metis \<open>CHR '':'' \<in> set (name @ '': '' @ vt)\<close>)+
qed

lemma written_line_split:
  assumes "plain_name name"
  shows "split_once (CHR '':'') (name @ '': '' @ vt) = (name, CHR '' '' # vt)"
proof -
  from assms have no_colon: "\<forall>c \<in> set name. c \<noteq> CHR '':''"
    by (auto simp: plain_name_def)
  then have "takeWhile (\<lambda>c. c \<noteq> CHR '':'') (name @ CHR '':'' # CHR '' '' # vt) = name"
    by (simp add: takeWhile_tail)
  moreover from no_colon
  have "dropWhile (\<lambda>c. c \<noteq> CHR '':'') (name @ CHR '':'' # CHR '' '' # vt)
          = CHR '':'' # CHR '' '' # vt"
    by (simp add: dropWhile_append3)
  ultimately show ?thesis
    by (simp add: split_once_def)
qed

lemma written_value_strip:
  assumes "vt \<noteq> []" and "\<not> isspace (hd vt)" and "\<not> isspace (last vt)"
    and "hd vt \<noteq> dquote" and "last vt \<noteq> dquote"
  shows "strip_with (\<lambda>c. c = dquote) (strip (CHR '' '' # vt)) = vt"
proof -
  have "strip (CHR '' '' # vt) = strip_with isspace vt"
    using assms(1,3) by (simp add: strip_def strip_with_cons isspace_blank)
  also have "\<dots> = vt"
    using assms(1-3) by (rule strip_with_id)
  finally show ?thesis
    using assms(1,4,5) by (simp add: strip_with_id)
qed

lemma null_text:
  "''null'' \<noteq> []" "\<not> isspace (hd ''null'')" "\<not> isspace (last ''null'')"
  "hd ''null'' \<noteq> dquote" "last ''null'' \<noteq> dquote"
  by (simp_all add: isspace_def dquote_def)

lemma decimal_text:
  assumes "s \<noteq> []" and "list_all isdecimal s"
  shows "\<not> isspace (hd s)" "\<not> isspace (last s)" "hd s \<noteq> dquote" "last s \<noteq> dquote"
    "s \<noteq> ''null''" "s \<noteq> ''~''"
proof -
  from assms have ends: "isdecimal (hd s)" "isdecimal (last s)"
    by (rule decimal_ends)+
  then show "\<not> isspace (hd s)" "\<not> isspace (last s)" "hd s \<noteq> dquote" "last s \<noteq> dquote"
    by (simp_all add: decimal_char)
  from ends(1) show "s \<noteq> ''null''" "s \<noteq> ''~''"
    by (auto simp: isdecimal_def)
qed

lemma simple_lines_written:
  assumes "plain_entry (name, uid)"
  shows "simple_lines ((render_line (name, uid) @ [LF]) # rest) mapping =
           simple_lines rest (AList.update name uid mapping)"
proof -
  from assms have name: "plain_name name"
    by (simp add: plain_entry_def)
  then have key: "strip name = name"
    by (simp add: plain_name_def)
  show ?thesis
  proof (cases uid)
    case None
    have line: "strip (render_line (name, uid) @ [LF]) = name @ '': '' @ ''null''"
      using written_line_strip [OF name, of "''null''"]
      by (simp add: render_line_def None isspace_def)
    have val: "strip_with (\<lambda>c. c = dquote) (strip (CHR '' '' # ''null'')) = ''null''"
      by (rule written_value_strip) (simp_all add: isspace_def dquote_def)
    show ?thesis
      unfolding simple_lines.simps line
      using written_line_kind [OF name, of "''null''"] written_line_split [OF name, of "''null''"]
      by (simp add: Let_def key val None)
  next
    case (Some u)
    with assms have u: "0 \<le> u"
      by (simp add: plain_entry_def)
    let ?vt = "str_nat (nat u)"
    have dec: "?vt \<noteq> []" "list_all isdecimal ?vt"
      using str_nat_decimal [of "nat u"] by simp_all
    note clean = decimal_text [OF dec]
    have line: "strip (render_line (name, uid) @ [LF]) = name @ '': '' @ ?vt"
      using written_line_strip [OF name dec(1) clean(2)]
      by (simp add: render_line_def Some str_int_nonneg u)
    have val: "strip_with (\<lambda>c. c = dquote) (strip (CHR '' '' # ?vt)) = ?vt"
      using dec(1) clean(1-4) by (rule written_value_strip)
    have int: "py_int ?vt = Some u"
      using u by (simp add: py_int_str_nat)
    show ?thesis
      unfolding simple_lines.simps line
      using written_line_kind [OF name, of ?vt] written_line_split [OF name, of ?vt]
        dec(1) clean(5,6) isdigit_decimal [OF dec]
      by (simp add: Let_def key val int Some)
  qed
qed

subsection \<open>A written file, read back\<close>

lemma simple_lines_all_written:
  "\<forall>e \<in> set es. plain_entry e \<Longrightarrow>
   simple_lines (map (\<lambda>e. render_line e @ [LF]) es) acc =
     Inr (fold (\<lambda>(k, v). AList.update k v) es acc)"
proof (induction es arbitrary: acc)
  case Nil
  show ?case by simp
next
  case (Cons e es)
  obtain name uid where e: "e = (name, uid)" by (cases e)
  with Cons.prems have "plain_entry (name, uid)" by simp
  from simple_lines_written [OF this] Cons show ?case
    by (simp add: e)
qed

lemma fold_update_distinct:
  "distinct (map fst es) \<Longrightarrow> fold (\<lambda>(k, v). AList.update k v) es [] = es"
  using fold_update_map [of es "[]" "\<lambda>v. v"] by simp

lemma distinct_keys_insort:
  "distinct (map fst (insort_key fst x xs)) \<longleftrightarrow> fst x \<notin> fst ` set xs \<and> distinct (map fst xs)"
  by (induction xs) (auto simp: set_insort_key)

lemma distinct_keys_sort: "distinct (map fst xs) \<Longrightarrow> distinct (map fst (sort_key fst xs))"
  by (induction xs) (auto simp: distinct_keys_insort)

lemma decimal_not_break: "isdecimal c \<Longrightarrow> c \<noteq> LF \<and> c \<noteq> CR"
  by (auto simp: isdecimal_def LF_def CR_def)

lemma render_line_chars:
  assumes "plain_entry e"
  shows "LF \<notin> set (render_line e)" and "CR \<notin> set (render_line e)"
proof -
  obtain name uid where e: "e = (name, uid)" by (cases e)
  have digits: "LF \<notin> set (str_nat n) \<and> CR \<notin> set (str_nat n)" for n
    using str_nat_decimal [of n] decimal_not_break by (auto simp: list_all_iff)
  from assms e have "LF \<notin> set name" "CR \<notin> set name"
    by (simp_all add: plain_entry_def plain_name_def)
  moreover have "LF \<notin> set (case uid of None \<Rightarrow> ''null'' | Some u \<Rightarrow> str_int u)
      \<and> CR \<notin> set (case uid of None \<Rightarrow> ''null'' | Some u \<Rightarrow> str_int u)"
    using assms e digits
    by (auto simp: plain_entry_def str_int_nonneg LF_def CR_def split: option.splits)
  ultimately show "LF \<notin> set (render_line e)" and "CR \<notin> set (render_line e)"
    by (simp_all add: e render_line_def LF_def CR_def)
qed

lemma sort_key_nonempty: "xs \<noteq> [] \<Longrightarrow> sort_key f xs \<noteq> []"
  by (metis length_0_conv length_sort)

lemma write_yaml_nonempty:
  "mapping \<noteq> [] \<Longrightarrow>
   write_yaml mapping = join_lines (map render_line (sort_key fst mapping)) @ [LF]"
  by (simp add: write_yaml_def Let_def sort_key_nonempty)

lemma written_no_CR:
  assumes "\<forall>e \<in> set mapping. plain_entry e"
  shows "CR \<notin> set (write_yaml mapping)"
proof (cases "mapping = []")
  case True
  then show ?thesis
    by (simp add: write_yaml_def CR_def LF_def)
next
  case False
  from assms have "\<forall>l \<in> set (map render_line (sort_key fst mapping)). CR \<notin> set l"
    by (auto simp: render_line_chars)
  with set_join_lines [of "map render_line (sort_key fst mapping)"] show ?thesis
    by (auto simp: write_yaml_nonempty [OF False] CR_def LF_def)
qed

lemma readlines_written:
  assumes "mapping \<noteq> []" and "\<forall>e \<in> set mapping. plain_entry e"
  shows "readlines (write_yaml mapping) =
           map (\<lambda>e. render_line e @ [LF]) (sort_key fst mapping)"
proof -
  from assms(2) have "\<forall>l \<in> set (map render_line (sort_key fst mapping)). LF \<notin> set l"
    by (auto simp: render_line_chars)
  moreover from assms(1) have "map render_line (sort_key fst mapping) \<noteq> []"
    by (simp add: sort_key_nonempty)
  ultimately have "lines_acc [] (join_lines (map render_line (sort_key fst mapping)) @ [LF])
      = map (\<lambda>l. l @ [LF]) (map render_line (sort_key fst mapping))"
    by (intro lines_acc_joined)
  then show ?thesis
    using written_no_CR [OF assms(2)]
    by (simp add: readlines_def universal_newlines_id write_yaml_nonempty [OF assms(1)] comp_def)
qed

lemma load_yaml_simple_written:
  assumes "distinct (keys mapping)" and "\<forall>e \<in> set mapping. plain_entry e"
  shows "load_yaml_simple (write_yaml mapping) = Inr (sort_key fst mapping)"
proof (cases "mapping = []")
  case True
  then show ?thesis
    by (simp add: load_yaml_simple_def write_yaml_def readlines_def LF_def CR_def strip_def
        strip_with_def isspace_def startswith_def)
next
  case False
  from assms(2) have plain: "\<forall>e \<in> set (sort_key fst mapping). plain_entry e"
    by simp
  from assms(1) have "distinct (map fst (sort_key fst mapping))"
    by (simp add: keys_def distinct_keys_sort)
  then show ?thesis
    by (simp add: load_yaml_simple_def readlines_written [OF False assms(2)]
        simple_lines_all_written [OF plain] fold_update_distinct)
qed

lemma written_not_blank:
  assumes "\<forall>e \<in> set mapping. plain_entry e"
  shows "strip (universal_newlines (write_yaml mapping)) \<noteq> []"
proof -
  have "\<exists>c \<in> set (write_yaml mapping). \<not> isspace c"
  proof (cases "mapping = []")
    case True
    then show ?thesis
      by (simp add: write_yaml_def isspace_def)
  next
    case False
    then obtain e es where "sort_key fst mapping = e # es"
      using sort_key_nonempty [OF False, of fst] by (cases "sort_key fst mapping") auto
    then have "CHR '':'' \<in> set (write_yaml mapping)"
      by (cases e; cases es) (auto simp: write_yaml_nonempty [OF False] render_line_def)
    then show ?thesis
      by (auto simp: isspace_def intro!: bexI [of _ "CHR '':''"])
  qed
  then obtain c where "c \<in> set (write_yaml mapping)" and "\<not> isspace c"
    by blast
  then have "c \<in> set (strip (write_yaml mapping))"
    unfolding strip_def by (rule strip_with_keeps)
  then show ?thesis
    using written_no_CR [OF assms] by (auto simp: universal_newlines_id)
qed

lemma coerce_items_denoted:
  "map (\<lambda>(key, val). (str_obj key, val)) items = map (\<lambda>(name, uid). (name, obj_of uid)) es \<Longrightarrow>
   coerce_items items acc = Inr (fold (\<lambda>(k, v). AList.update k v) es acc)"
proof (induction es arbitrary: items acc)
  case Nil
  then show ?case by simp
next
  case (Cons e es)
  obtain name uid where e: "e = (name, uid)" by (cases e)
  from Cons.prems obtain key val rest where items: "items = (key, val) # rest"
    by (cases items) auto
  from Cons.prems have head: "str_obj key = name" "val = obj_of uid"
    and tail: "map (\<lambda>(key, val). (str_obj key, val)) rest
                 = map (\<lambda>(name, uid). (name, obj_of uid)) es"
    by (simp_all add: items e)
  from Cons.IH [OF tail] head show ?case
    by (cases uid) (simp_all add: items e obj_of_def)
qed

lemma load_structured_written:
  assumes "distinct (keys mapping)" and "denotes data mapping"
  shows "(case data of
            NotDict truthy \<Rightarrow>
              if truthy then Inl (SystemExit ''Container UID map must be a YAML mapping'')
              else Inr []
          | Dict items \<Rightarrow> coerce_items items []) = Inr (sort_key fst mapping)"
proof -
  from assms(2) obtain items where data: "data = Dict items"
    and items: "map (\<lambda>(key, val). (str_obj key, val)) items
                  = map (\<lambda>(name, uid). (name, obj_of uid)) (sort_key fst mapping)"
    by (cases data) (auto simp: denotes_def)
  from assms(1) have "distinct (map fst (sort_key fst mapping))"
    by (simp add: keys_def distinct_keys_sort)
  with coerce_items_denoted [OF items, of "[]"] show ?thesis
    by (simp add: data fold_update_distinct)
qed

lemma map_of_sorted: "distinct (map fst xs) \<Longrightarrow> map_of (sort_key fst xs) = map_of xs"
  by (intro map_of_inject_set [THEN iffD2]) (simp_all add: distinct_keys_sort)

lemmas store_defs = load_container_map_def load_yaml_simple_def readlines_def write_yaml_def
  render_line_def str_int_def str_nat.simps digit_of_def LF_def CR_def strip_def strip_with_def
  isspace_def startswith_def split_once_def dquote_def squote_def isdigit_def isdigit_char_def
  parser_giving_def

lemmas plain_defs = keys_def plain_entry_def plain_name_def strip_def strip_with_def isspace_def
  startswith_def LF_def CR_def


text \<open>
  C2, as amended. For every mapping whose names are plain (no colon, no line break, no
  blank at either end, no leading \<open>#\<close>) and whose values are absent or non-negative
  integers: the file \<open>write_yaml\<close> writes is read back by \<open>load_container_map\<close> as the same
  mapping, its entries in ascending order of name. This holds on the fallback path, and
  on the structured path for every parser that reads the written text as the document it
  denotes.
\<close>

theorem save_load_roundtrip:
  assumes "distinct (keys mapping)" and "\<forall>entry \<in> set mapping. plain_entry entry"
  shows "load_container_map None (Some (write_yaml mapping)) map_path
           = Inr (sort_key fst mapping)
       \<and> (safe_load (write_yaml mapping) = Inr data \<and> denotes data mapping \<longrightarrow>
            load_container_map (Some safe_load) (Some (write_yaml mapping)) map_path
              = Inr (sort_key fst mapping))
       \<and> map_of (sort_key fst mapping) = map_of mapping"
proof (intro conjI impI)
  note blank = written_not_blank [OF assms(2)]
  show "load_container_map None (Some (write_yaml mapping)) map_path
           = Inr (sort_key fst mapping)"
    using blank by (simp add: load_container_map_def load_yaml_simple_written [OF assms])
  show "load_container_map (Some safe_load) (Some (write_yaml mapping)) map_path
              = Inr (sort_key fst mapping)"
    if "safe_load (write_yaml mapping) = Inr data \<and> denotes data mapping"
    using that blank load_structured_written [OF assms(1), of data] written_no_CR [OF assms(2)]
    by (simp add: load_container_map_def universal_newlines_id)
  from assms(1) show "map_of (sort_key fst mapping) = map_of mapping"
    by (simp add: keys_def map_of_sorted)
qed

theorem save_load_roundtrip_witness:
  "load_container_map None (Some (write_yaml [(''db'', Some 999), (''core'', None)]))
     ''container_host_uids.yml'' = Inr [(''core'', None), (''db'', Some 999)]
   \<and> map_of [(''core'', None), (''db'', Some (999::int))]
       = map_of [(''db'', Some 999), (''core'', None)]"
proof -
  let ?m = "[(''db'', Some (999::int)), (''core'', None)]"
  have d: "distinct (keys ?m)"
    by (simp add: keys_def)
  have p: "\<forall>entry \<in> set ?m. plain_entry entry"
    by (simp add: plain_defs)
  have s: "sort_key fst ?m = [(''core'', None), (''db'', Some 999)]"
    by simp
  note roundtrip = save_load_roundtrip [OF d p, where map_path = "''container_host_uids.yml''"
      and safe_load = "parser_giving (Dict [])" and data = "Dict []"]
  from roundtrip [THEN conjunct1] roundtrip [THEN conjunct2, THEN conjunct2]
  show ?thesis
    unfolding s by (rule conjI)
qed

text \<open>
  C2 as stated fails for a name outside the plain ones: the written line of a name that
  starts with \<open>#\<close> is read as a comment, and the entry is lost.
\<close>

theorem save_load_roundtrip_counterexample:
  "load_container_map None (Some (write_yaml [(''#recycle'', Some 1000)])) ''container_uids.yml''
     = Inr []"
  by (simp add: store_defs)







end
